theory Spec2Isabelle
  imports Main
begin

unbundle bit_operations_syntax

section \<open>Data model of \<open>src/scenes/mainScene.ts\<close>\<close>

text \<open>
  The scene of the game: a grid of \<open>w\<close> columns of \<open>h\<close> blocks, the cat, the game state and
  the text shown in the status bar. JavaScript numbers that hold grid coordinates are
  modelled as unbounded integers; an object \<open>{i: a, j: b}\<close> of type \<open>NeighbourData\<close> is
  the pair \<open>(a, b)\<close>.
\<close>

type_synonym NeighbourData = "int \<times> int"

datatype GameState = PLAYING | WIN | LOSE

text \<open>
  The status texts are localised string literals in the source; each literal is one
  constructor here, in the order in which the source mentions them:
  the cat reached the edge and the player lost (\<open>MsgEscaped\<close>),
  the cat has no way out and the player won (\<open>MsgNoWayOut\<close>),
  the game is over and a new one starts (\<open>MsgGameOver\<close>),
  the clicked position does not exist (\<open>MsgNoSuchPosition\<close>),
  the clicked position is a wall already (\<open>MsgAlreadyWall\<close>),
  the clicked position is where the cat is (\<open>MsgCatPosition\<close>),
  the player clicked \<open>(i, j)\<close> (\<open>MsgClicked i j\<close>),
  the cat gives up and the player won (\<open>MsgConcede\<close>),
  and the opening instruction (\<open>MsgStart\<close>).
\<close>

datatype message =
    MsgEscaped
  | MsgNoWayOut
  | MsgGameOver
  | MsgNoSuchPosition
  | MsgAlreadyWall
  | MsgCatPosition
  | MsgClicked int int
  | MsgConcede
  | MsgStart

record block =
  isWall :: bool

record cat =
  cat_i :: int
  cat_j :: int

record scene =
  w :: int
  h :: int
  blocks :: "block list list"
  cat :: cat
  state :: GameState
  statusBar :: message

text \<open>
  Indexing an array out of range gives \<open>undefined\<close> in JavaScript, and indexing
  \<open>undefined\<close> throws a \<open>TypeError\<close>.
\<close>

datatype js_error = TypeError

subsection \<open>The cat, as the scene sees it\<close>

text \<open>
  The class \<open>Cat\<close> is not part of the source file. The scene reads the fields \<open>i\<close> and
  \<open>j\<close> of the cat, calls its methods \<open>isCaught\<close>, \<open>step\<close> and \<open>reset\<close>, and listens to its
  events \<open>escaped\<close> and \<open>win\<close>.
\<close>

text \<open>
  Modelled from the spec: \<open>Cat.isCaught\<close> and \<open>Cat.step\<close> are missing from the source and
  are parameters of \<open>playerClick\<close>. \<open>isCaught\<close> is a query of the scene (section 4.3: it
  delegates to the enclosure test on the grid and the current position). \<open>step\<close> reads the
  scene and yields its boolean result, the cat after the move, and the events it emitted
  on the way; it does not write to the grid (section 3: a cell becomes a wall only through
  a validated player move).
\<close>

datatype cat_event = Escaped | Win

record cat_methods =
  isCaught :: "scene \<Rightarrow> bool"
  step :: "scene \<Rightarrow> bool \<times> cat \<times> cat_event list"

text \<open>
  Modelled from the spec: \<open>Cat.reset\<close> is missing from the source; section 4.3 says that it
  relocates the cat to its fixed start position and does not clear the grid. The start
  position is a parameter.
\<close>

definition Cat_reset :: "NeighbourData \<Rightarrow> cat \<Rightarrow> cat" where
  "Cat_reset start c = c\<lparr>cat_i := fst start, cat_j := snd start\<rparr>"

section \<open>The operations of \<open>MainScene\<close>\<close>

text \<open>
  \<open>j & 1\<close> converts \<open>j\<close> to a signed 32-bit integer first.
\<close>

definition ToInt32 :: "int \<Rightarrow> int" where
  "ToInt32 x = signed_take_bit 31 x"

definition getNeighbours :: "int \<Rightarrow> int \<Rightarrow> NeighbourData list" where
  "getNeighbours i j =
    (let left = (i - 1, j);
         right = (i + 1, j);
         (top_left, top_right, bottom_left, bottom_right) =
           (if ToInt32 j AND 1 = 0
            then ((i - 1, j - 1), (i, j - 1), (i - 1, j + 1), (i, j + 1))
            else ((i, j - 1), (i + 1, j - 1), (i, j + 1), (i + 1, j + 1)))
     in [left, top_left, top_right, right, bottom_right, bottom_left])"

definition setStatusText :: "message \<Rightarrow> scene \<Rightarrow> scene" where
  "setStatusText msg s = s\<lparr>statusBar := msg\<rparr>"

text \<open>
  The setter of \<open>state\<close>. Its \<open>default\<close> branch returns without storing; no value of
  \<open>GameState\<close> reaches it.
\<close>

fun set_state :: "GameState \<Rightarrow> scene \<Rightarrow> scene" where
  "set_state PLAYING s = s\<lparr>state := PLAYING\<rparr>"
| "set_state LOSE s = (setStatusText MsgEscaped s)\<lparr>state := LOSE\<rparr>"
| "set_state WIN s = (setStatusText MsgNoWayOut s)\<lparr>state := WIN\<rparr>"

text \<open>
  \<open>createBlocks\<close> fills \<open>w\<close> columns with \<open>h\<close> new blocks each. The constructor of \<open>Block\<close> is
  not in the source file, so the block it builds is a parameter.
\<close>

definition createBlocks :: "block \<Rightarrow> scene \<Rightarrow> scene" where
  "createBlocks new_block s =
     s\<lparr>blocks := replicate (nat (w s)) (replicate (nat (h s)) new_block)\<rparr>"

text \<open>
  \<open>getBlock\<close> returns \<open>null\<close> (here \<open>None\<close>) outside the bounds. Inside the bounds it
  reads \<open>this.blocks[i][j]\<close>: when the column \<open>i\<close> is missing the read throws, and when
  the column is too short it yields \<open>undefined\<close>, which \<open>playerClick\<close> treats as it
  treats \<open>null\<close>, so that it is \<open>None\<close> as well.
\<close>

definition getBlock :: "scene \<Rightarrow> int \<Rightarrow> int \<Rightarrow> js_error + block option" where
  "getBlock s i j =
    (if \<not> (i \<ge> 0 \<and> i < w s \<and> j \<ge> 0 \<and> j < h s) then Inr None
     else if length (blocks s) \<le> nat i then Inl TypeError
     else if length (blocks s ! nat i) \<le> nat j then Inr None
     else Inr (Some (blocks s ! nat i ! nat j)))"

text \<open>
  The handlers that \<open>createCat\<close> registers: \<open>escaped\<close> sets the state to \<open>LOSE\<close>, \<open>win\<close>
  sets it to \<open>WIN\<close>.
\<close>

fun on_event :: "scene \<Rightarrow> cat_event \<Rightarrow> scene" where
  "on_event s Escaped = set_state LOSE s"
| "on_event s Win = set_state WIN s"

text \<open>
  \<open>reset\<close>: the cat goes back to its start, every block stops being a wall, the state is
  \<open>PLAYING\<close> and the status bar shows the opening instruction.
\<close>

definition reset :: "NeighbourData \<Rightarrow> scene \<Rightarrow> scene" where
  "reset start s =
    (let s1 = s\<lparr>cat := Cat_reset start (cat s)\<rparr>;
         s2 = s1\<lparr>blocks := map (map (\<lambda>b. b\<lparr>isWall := False\<rparr>)) (blocks s1)\<rparr>;
         s3 = set_state PLAYING s2
     in setStatusText MsgStart s3)"

text \<open>
  The assignment \<open>block.isWall = true\<close> through the reference that \<open>getBlock(i, j)\<close>
  returned, which is the object stored at \<open>blocks[i][j]\<close>.
\<close>

definition assign_isWall :: "int \<Rightarrow> int \<Rightarrow> bool \<Rightarrow> scene \<Rightarrow> scene" where
  "assign_isWall i j v s =
     s\<lparr>blocks := (blocks s)[nat i := (blocks s ! nat i)[nat j := (blocks s ! nat i ! nat j)\<lparr>isWall := v\<rparr>]]\<rparr>"

text \<open>
  The call \<open>this.cat.step()\<close>: the cat is replaced by the one after the move and the
  handlers run for the events emitted meanwhile.
\<close>

definition call_step :: "cat_methods \<Rightarrow> scene \<Rightarrow> bool \<times> scene" where
  "call_step m s =
    (case step m s of (result, c, events) \<Rightarrow> (result, foldl on_event (s\<lparr>cat := c\<rparr>) events))"

text \<open>
  \<open>playerClick\<close>. Stopping the animation of the cat has no effect on the fields modelled
  here and is left out.
\<close>

definition playerClick ::
  "NeighbourData \<Rightarrow> cat_methods \<Rightarrow> int \<Rightarrow> int \<Rightarrow> scene \<Rightarrow> js_error + (bool \<times> scene)" where
  "playerClick start m i j s =
    (if state s \<noteq> PLAYING then Inr (False, reset start (setStatusText MsgGameOver s))
     else case getBlock s i j of
       Inl e \<Rightarrow> Inl e
     | Inr None \<Rightarrow> Inr (False, setStatusText MsgNoSuchPosition s)
     | Inr (Some block) \<Rightarrow>
         if isWall block then Inr (False, setStatusText MsgAlreadyWall s)
         else if cat_i (cat s) = i \<and> cat_j (cat s) = j
         then Inr (False, setStatusText MsgCatPosition s)
         else
           let s1 = assign_isWall i j True s in
           if isCaught m s1 then Inr (False, set_state WIN (setStatusText MsgNoWayOut s1))
           else
             let s2 = setStatusText (MsgClicked i j) s1;
                 (result, s3) = call_step m s2
             in if \<not> result
                then Inr (True, set_state WIN (setStatusText MsgConcede s3))
                else Inr (True, s3))"

text \<open>
  \<open>create\<close>, on the scene that the constructor built: the blocks and the cat are made,
  then \<open>reset\<close> runs. The constructor of \<open>Cat\<close> is not in the source file, so the cat it
  builds is a parameter.
\<close>

definition create :: "block \<Rightarrow> cat \<Rightarrow> NeighbourData \<Rightarrow> scene \<Rightarrow> scene" where
  "create new_block new_cat start s = reset start ((createBlocks new_block s)\<lparr>cat := new_cat\<rparr>)"

section \<open>Well-formed scenes\<close>

text \<open>
  After \<open>createBlocks\<close> the grid has \<open>w\<close> columns of \<open>h\<close> blocks, and no operation changes
  its shape.
\<close>

definition wf_scene :: "scene \<Rightarrow> bool" where
  "wf_scene s \<longleftrightarrow>
     length (blocks s) = nat (w s) \<and> list_all (\<lambda>column. length column = nat (h s)) (blocks s)"

definition in_bounds :: "scene \<Rightarrow> int \<Rightarrow> int \<Rightarrow> bool" where
  "in_bounds s i j \<longleftrightarrow> 0 \<le> i \<and> i < w s \<and> 0 \<le> j \<and> j < h s"

text \<open>
  A valid target of a click: in bounds, not a wall, and not where the cat is.
\<close>

definition valid_target :: "scene \<Rightarrow> int \<Rightarrow> int \<Rightarrow> bool" where
  "valid_target s i j \<longleftrightarrow>
     in_bounds s i j \<and> \<not> isWall (blocks s ! nat i ! nat j) \<and> \<not> (cat_i (cat s) = i \<and> cat_j (cat s) = j)"

text \<open>
  The cell at \<open>(a, b)\<close> exists and is a wall; it exists and is open.
\<close>

definition wall_at :: "scene \<Rightarrow> int \<Rightarrow> int \<Rightarrow> bool" where
  "wall_at s a b = (case getBlock s a b of Inr (Some blk) \<Rightarrow> isWall blk | _ \<Rightarrow> False)"

definition open_at :: "scene \<Rightarrow> int \<Rightarrow> int \<Rightarrow> bool" where
  "open_at s a b = (case getBlock s a b of Inr (Some blk) \<Rightarrow> \<not> isWall blk | _ \<Rightarrow> False)"

text \<open>
  The invariant of the data model: the cell under the cat is not a wall.
\<close>

definition cat_not_on_wall :: "scene \<Rightarrow> bool" where
  "cat_not_on_wall s \<longleftrightarrow> \<not> wall_at s (cat_i (cat s)) (cat_j (cat s))"

text \<open>
  Modelled from the spec: what section 4.3 says of the missing method \<open>Cat.step\<close>, for a
  call in the scene \<open>s\<close>. When it returns \<open>true\<close> the cat has moved to one of the six
  neighbours of its cell, and that neighbour is an open cell of the grid; when it returns
  \<open>false\<close> the cat has not moved.
\<close>

definition step_as_specified :: "cat_methods \<Rightarrow> scene \<Rightarrow> bool" where
  "step_as_specified m s =
    (case step m s of (result, c, events) \<Rightarrow>
       if result
       then (cat_i c, cat_j c) \<in> set (getNeighbours (cat_i (cat s)) (cat_j (cat s)))
            \<and> open_at s (cat_i c) (cat_j c)
       else c = cat s)"

text \<open>
  The scene in which \<open>playerClick\<close> asks the cat whether it is caught, and the scene in
  which it asks the cat to step: the wall is placed, and for the step the status bar
  shows the click.
\<close>

definition after_wall :: "int \<Rightarrow> int \<Rightarrow> scene \<Rightarrow> scene" where
  "after_wall i j s = assign_isWall i j True s"

definition before_step :: "int \<Rightarrow> int \<Rightarrow> scene \<Rightarrow> scene" where
  "before_step i j s = setStatusText (MsgClicked i j) (assign_isWall i j True s)"

section \<open>Examples\<close>

text \<open>
  A board of three by three cells as \<open>create\<close> leaves it, with the start of the cat in the
  centre; a cat that is never caught and gives up at once; a cat that is caught; a cat
  that always steps to the left and reports its escape; and the lost game that this last
  cat leaves after a click on \<open>(0, 0)\<close>, with a wall there and the cat away from its start.
\<close>

definition example_scene :: scene where
  "example_scene =
     create \<lparr>isWall = False\<rparr> \<lparr>cat_i = 0, cat_j = 0\<rparr> (1, 1)
       \<lparr>w = 3, h = 3, blocks = [], cat = \<lparr>cat_i = 0, cat_j = 0\<rparr>, state = PLAYING, statusBar = MsgStart\<rparr>"

definition conceding_cat :: cat_methods where
  "conceding_cat = \<lparr>isCaught = (\<lambda>s. False), step = (\<lambda>s. (False, cat s, []))\<rparr>"

definition caught_cat :: cat_methods where
  "caught_cat = \<lparr>isCaught = (\<lambda>s. True), step = (\<lambda>s. (False, cat s, []))\<rparr>"

definition left_cat :: cat_methods where
  "left_cat = \<lparr>isCaught = (\<lambda>s. False),
                step = (\<lambda>s. (True, (cat s)\<lparr>cat_i := cat_i (cat s) - 1\<rparr>, [Escaped]))\<rparr>"

definition lost_scene :: scene where
  "lost_scene =
     \<lparr>w = 3, h = 3,
      blocks = [[\<lparr>isWall = True\<rparr>, \<lparr>isWall = False\<rparr>, \<lparr>isWall = False\<rparr>],
                [\<lparr>isWall = False\<rparr>, \<lparr>isWall = False\<rparr>, \<lparr>isWall = False\<rparr>],
                [\<lparr>isWall = False\<rparr>, \<lparr>isWall = False\<rparr>, \<lparr>isWall = False\<rparr>]],
      cat = \<lparr>cat_i = 0, cat_j = 1\<rparr>, state = LOSE, statusBar = MsgEscaped\<rparr>"

section \<open>The neighbours of a cell\<close>

lemma parity_test: "(ToInt32 j AND 1 = 0) = even j"
  by (simp add: ToInt32_def and_one_eq even_signed_take_bit_iff mod_2_eq_odd)

lemma getNeighbours_even:
  "even j \<Longrightarrow> getNeighbours i j =
     [(i - 1, j), (i - 1, j - 1), (i, j - 1), (i + 1, j), (i, j + 1), (i - 1, j + 1)]"
  by (simp add: getNeighbours_def parity_test)

lemma getNeighbours_odd:
  "odd j \<Longrightarrow> getNeighbours i j =
     [(i - 1, j), (i, j - 1), (i + 1, j - 1), (i + 1, j), (i + 1, j + 1), (i, j + 1)]"
  by (simp add: getNeighbours_def parity_test)



text \<open>
  Claim C1. For every cell \<open>(i, j)\<close>, \<open>getNeighbours i j\<close> lists left, top-left, top-right,
  right, bottom-right, bottom-left in this order. Left is \<open>(i - 1, j)\<close> and right is
  \<open>(i + 1, j)\<close>; for even \<open>j\<close> the diagonal neighbours are top-left \<open>(i - 1, j - 1)\<close>,
  top-right \<open>(i, j - 1)\<close>, bottom-right \<open>(i, j + 1)\<close>, bottom-left \<open>(i - 1, j + 1)\<close>, and for
  odd \<open>j\<close> they are top-left \<open>(i, j - 1)\<close>, top-right \<open>(i + 1, j - 1)\<close>,
  bottom-right \<open>(i + 1, j + 1)\<close>, bottom-left \<open>(i, j + 1)\<close>.
\<close>

theorem getNeighbours_order:
  "(even j \<longrightarrow> getNeighbours i j =
      [(i - 1, j), (i - 1, j - 1), (i, j - 1), (i + 1, j), (i, j + 1), (i - 1, j + 1)])
   \<and> (odd j \<longrightarrow> getNeighbours i j =
      [(i - 1, j), (i, j - 1), (i + 1, j - 1), (i + 1, j), (i + 1, j + 1), (i, j + 1)])"
  by (simp add: getNeighbours_even getNeighbours_odd)

theorem getNeighbours_order_witness:
  "even (2::int) \<and> odd (3::int)
   \<and> getNeighbours 2 2 = [(1, 2), (1, 1), (2, 1), (3, 2), (2, 3), (1, 3)]
   \<and> getNeighbours 2 3 = [(1, 3), (2, 2), (3, 2), (3, 3), (3, 4), (2, 4)]"
  using getNeighbours_order [of 2 2] getNeighbours_order [of 3 2] by simp



section \<open>The fields that each operation leaves alone\<close>

lemma setStatusText_fields [simp]:
  "w (setStatusText msg s) = w s" "h (setStatusText msg s) = h s"
  "blocks (setStatusText msg s) = blocks s" "cat (setStatusText msg s) = cat s"
  "state (setStatusText msg s) = state s" "statusBar (setStatusText msg s) = msg"
  by (simp_all add: setStatusText_def)

lemma set_state_fields [simp]:
  "w (set_state v s) = w s" "h (set_state v s) = h s"
  "blocks (set_state v s) = blocks s" "cat (set_state v s) = cat s"
  "state (set_state v s) = v"
  by (cases v; simp)+

lemma on_event_fields [simp]:
  "w (on_event s e) = w s" "h (on_event s e) = h s"
  "blocks (on_event s e) = blocks s" "cat (on_event s e) = cat s"
  by (cases e; simp)+

lemma foldl_on_event_fields [simp]:
  "w (foldl on_event s es) = w s" "h (foldl on_event s es) = h s"
  "blocks (foldl on_event s es) = blocks s" "cat (foldl on_event s es) = cat s"
  by (induction es arbitrary: s; simp)+

lemma assign_isWall_fields [simp]:
  "w (assign_isWall i j v s) = w s" "h (assign_isWall i j v s) = h s"
  "cat (assign_isWall i j v s) = cat s" "state (assign_isWall i j v s) = state s"
  "statusBar (assign_isWall i j v s) = statusBar s"
  by (simp_all add: assign_isWall_def)

lemma reset_fields [simp]:
  "w (reset start s) = w s" "h (reset start s) = h s"
  "blocks (reset start s) = map (map (\<lambda>b. b\<lparr>isWall := False\<rparr>)) (blocks s)"
  "cat (reset start s) = Cat_reset start (cat s)"
  "state (reset start s) = PLAYING" "statusBar (reset start s) = MsgStart"
  by (simp_all add: reset_def Let_def)

lemma call_step_fields [simp]:
  "w (snd (call_step m s)) = w s" "h (snd (call_step m s)) = h s"
  "blocks (snd (call_step m s)) = blocks s"
  "cat (snd (call_step m s)) = fst (snd (step m s))"
  "fst (call_step m s) = fst (step m s)"
  by (simp_all add: call_step_def split: prod.splits)

section \<open>The shape of the grid\<close>

lemma wf_scene_nth:
  assumes "wf_scene s" "in_bounds s i j"
  shows "nat i < length (blocks s)" "nat j < length (blocks s ! nat i)"
proof -
  from assms show a: "nat i < length (blocks s)"
    by (simp add: wf_scene_def in_bounds_def)
  from assms a have "length (blocks s ! nat i) = nat (h s)"
    by (simp add: wf_scene_def list_all_length)
  with assms show "nat j < length (blocks s ! nat i)"
    by (simp add: in_bounds_def)
qed

lemma getBlock_in_bounds:
  assumes "wf_scene s" "in_bounds s i j"
  shows "getBlock s i j = Inr (Some (blocks s ! nat i ! nat j))"
  using wf_scene_nth [OF assms] assms(2) by (simp add: getBlock_def in_bounds_def)

lemma getBlock_out_of_bounds:
  "\<not> in_bounds s i j \<Longrightarrow> getBlock s i j = Inr None"
  by (simp add: getBlock_def in_bounds_def)

lemma wf_scene_eq:
  "w s' = w s \<Longrightarrow> h s' = h s \<Longrightarrow> blocks s' = blocks s \<Longrightarrow> wf_scene s' = wf_scene s"
  by (simp add: wf_scene_def)

lemma wf_scene_reset: "wf_scene s \<Longrightarrow> wf_scene (reset start s)"
  by (simp add: wf_scene_def list_all_iff)

lemma wf_scene_assign_isWall:
  assumes "wf_scene s"
  shows "wf_scene (assign_isWall i j v s)"
proof (cases "nat i < length (blocks s)")
  case False
  then have "blocks (assign_isWall i j v s) = blocks s"
    unfolding assign_isWall_def by (simp add: list_update_beyond not_less)
  with assms show ?thesis
    by (simp add: wf_scene_def)
next
  case True
  define column where "column = (blocks s ! nat i)[nat j := (blocks s ! nat i ! nat j)\<lparr>isWall := v\<rparr>]"
  from True have "blocks s ! nat i \<in> set (blocks s)"
    by (rule nth_mem)
  with assms have "length column = nat (h s)"
    by (simp add: wf_scene_def list_all_iff column_def)
  moreover have "set ((blocks s)[nat i := column]) \<subseteq> insert column (set (blocks s))"
    by (rule set_update_subset_insert)
  ultimately have "\<forall>c \<in> set ((blocks s)[nat i := column]). length c = nat (h s)"
    using assms by (auto simp add: wf_scene_def list_all_iff)
  with assms show ?thesis
    by (simp add: wf_scene_def list_all_iff assign_isWall_def column_def)
qed

lemma wf_scene_createBlocks: "wf_scene (createBlocks new_block s)"
  by (simp add: wf_scene_def createBlocks_def list_all_iff)

lemma wf_scene_create: "wf_scene (create new_block new_cat start s)"
proof -
  have "wf_scene ((createBlocks new_block s)\<lparr>cat := new_cat\<rparr>)"
    using wf_scene_createBlocks [of new_block s] by (simp add: wf_scene_def)
  then show ?thesis
    unfolding create_def by (rule wf_scene_reset)
qed

section \<open>The example scene\<close>

lemma example_scene_eq:
  "example_scene =
     \<lparr>w = 3, h = 3,
      blocks = [[\<lparr>isWall = False\<rparr>, \<lparr>isWall = False\<rparr>, \<lparr>isWall = False\<rparr>],
                [\<lparr>isWall = False\<rparr>, \<lparr>isWall = False\<rparr>, \<lparr>isWall = False\<rparr>],
                [\<lparr>isWall = False\<rparr>, \<lparr>isWall = False\<rparr>, \<lparr>isWall = False\<rparr>]],
      cat = \<lparr>cat_i = 1, cat_j = 1\<rparr>, state = PLAYING, statusBar = MsgStart\<rparr>"
  by (simp add: example_scene_def create_def reset_def createBlocks_def Cat_reset_def
      setStatusText_def numeral_3_eq_3)

lemma wf_example_scene: "wf_scene example_scene"
  unfolding example_scene_def by (rule wf_scene_create)

text \<open>
  Claim C7. In a well-formed scene, \<open>getBlock s i j\<close> returns the block stored at
  \<open>blocks[i][j]\<close> when \<open>0 \<le> i < w\<close> and \<open>0 \<le> j < h\<close>, and otherwise it returns \<open>null\<close>:
  a result (\<open>Inr None\<close>), not a raised error (\<open>Inl\<close>).
\<close>

theorem getBlock_bounds:
  assumes "wf_scene s"
  shows "getBlock s i j =
    (if 0 \<le> i \<and> i < w s \<and> 0 \<le> j \<and> j < h s
     then Inr (Some (blocks s ! nat i ! nat j)) else Inr None)"
  using assms getBlock_in_bounds [of s i j] getBlock_out_of_bounds [of s i j]
  by (simp add: in_bounds_def)

theorem getBlock_bounds_witness:
  "wf_scene example_scene
   \<and> getBlock example_scene 2 0 = Inr (Some \<lparr>isWall = False\<rparr>)
   \<and> getBlock example_scene 3 0 = Inr None
   \<and> getBlock example_scene 0 (- 1) = Inr None"
  using getBlock_bounds [OF wf_example_scene, of 2 0]
    getBlock_bounds [OF wf_example_scene, of 3 0]
    getBlock_bounds [OF wf_example_scene, of 0 "- 1"] wf_example_scene
  by (simp add: example_scene_eq)

section \<open>The branches of \<open>playerClick\<close>\<close>

lemma playerClick_game_over:
  "state s \<noteq> PLAYING \<Longrightarrow>
     playerClick start m i j s = Inr (False, reset start (setStatusText MsgGameOver s))"
  by (simp add: playerClick_def)

lemma playerClick_rejected:
  assumes "wf_scene s" "state s = PLAYING" "\<not> valid_target s i j"
  shows "playerClick start m i j s =
    Inr (False, setStatusText
      (if \<not> in_bounds s i j then MsgNoSuchPosition
       else if isWall (blocks s ! nat i ! nat j) then MsgAlreadyWall
       else MsgCatPosition) s)"
proof (cases "in_bounds s i j")
  case False
  then show ?thesis
    using assms(2) by (simp add: playerClick_def getBlock_out_of_bounds)
next
  case True
  with assms show ?thesis
    by (auto simp add: playerClick_def getBlock_in_bounds valid_target_def)
qed

lemma playerClick_accepted:
  assumes "wf_scene s" "state s = PLAYING" "valid_target s i j"
  shows "playerClick start m i j s =
    (if isCaught m (after_wall i j s)
     then Inr (False, set_state WIN (setStatusText MsgNoWayOut (after_wall i j s)))
     else if \<not> fst (step m (before_step i j s))
     then Inr (True, set_state WIN (setStatusText MsgConcede (snd (call_step m (before_step i j s)))))
     else Inr (True, snd (call_step m (before_step i j s))))"
proof -
  from assms(3) have inb: "in_bounds s i j"
    and open_cell: "\<not> isWall (blocks s ! nat i ! nat j)"
    and not_cat: "\<not> (cat_i (cat s) = i \<and> cat_j (cat s) = j)"
    by (simp_all add: valid_target_def)
  have blk: "getBlock s i j = Inr (Some (blocks s ! nat i ! nat j))"
    using assms(1) inb by (rule getBlock_in_bounds)
  have res: "fst (call_step m (before_step i j s)) = fst (step m (before_step i j s))"
    by simp
  show ?thesis
    unfolding playerClick_def blk after_wall_def [symmetric]
    using assms(2) open_cell not_cat res
    by (auto simp add: before_step_def after_wall_def Let_def case_prod_beta
        simp del: set_state.simps call_step_fields)
qed

section \<open>Walls and the cat\<close>

lemma blocks_after_wall:
  assumes "wf_scene s" "in_bounds s i j" "in_bounds s a b"
  shows "blocks (assign_isWall i j v s) ! nat a ! nat b =
    (if a = i \<and> b = j then (blocks s ! nat i ! nat j)\<lparr>isWall := v\<rparr> else blocks s ! nat a ! nat b)"
proof -
  note ij = wf_scene_nth [OF assms(1,2)]
  have eq: "nat i = nat a \<longleftrightarrow> a = i" "nat j = nat b \<longleftrightarrow> b = j"
    using assms(2,3) by (auto simp add: in_bounds_def)
  show ?thesis
  proof (cases "a = i")
    case True
    with ij eq show ?thesis
      by (simp add: assign_isWall_def nth_list_update)
  next
    case False
    with ij eq show ?thesis
      by (simp add: assign_isWall_def nth_list_update)
  qed
qed

lemma in_bounds_assign_isWall [simp]:
  "in_bounds (assign_isWall i j v s) a b = in_bounds s a b"
  by (simp add: in_bounds_def)

lemma wall_at_iff:
  "wf_scene s \<Longrightarrow> wall_at s a b \<longleftrightarrow> in_bounds s a b \<and> isWall (blocks s ! nat a ! nat b)"
  by (cases "in_bounds s a b") (simp_all add: wall_at_def getBlock_in_bounds getBlock_out_of_bounds)

lemma open_at_iff:
  "wf_scene s \<Longrightarrow> open_at s a b \<longleftrightarrow> in_bounds s a b \<and> \<not> isWall (blocks s ! nat a ! nat b)"
  by (cases "in_bounds s a b") (simp_all add: open_at_def getBlock_in_bounds getBlock_out_of_bounds)

lemma wall_at_cong:
  "w s' = w s \<Longrightarrow> h s' = h s \<Longrightarrow> blocks s' = blocks s \<Longrightarrow> wall_at s' a b = wall_at s a b"
  by (simp add: wall_at_def getBlock_def)

lemma wall_at_after_wall:
  assumes "wf_scene s" "in_bounds s i j" "\<not> (a = i \<and> b = j)"
  shows "wall_at (assign_isWall i j True s) a b = wall_at s a b"
proof (cases "in_bounds s a b")
  case True
  have "wf_scene (assign_isWall i j True s)"
    using assms(1) by (rule wf_scene_assign_isWall)
  then show ?thesis
    using assms True blocks_after_wall [of s i j a b True]
    by (auto simp add: wall_at_iff)
next
  case False
  have "wf_scene (assign_isWall i j True s)"
    using assms(1) by (rule wf_scene_assign_isWall)
  then show ?thesis
    using assms(1) False by (simp add: wall_at_iff)
qed

lemma no_wall_after_reset: "\<not> wall_at (reset start s) a b"
  by (auto simp add: wall_at_def getBlock_def split: sum.splits option.splits)

lemma open_at_not_wall_at: "open_at s a b \<Longrightarrow> \<not> wall_at s a b"
  by (auto simp add: open_at_def wall_at_def split: sum.splits option.splits)

lemma cat_not_on_wall_after_wall:
  assumes "wf_scene s" "valid_target s i j" "cat_not_on_wall s"
  shows "cat_not_on_wall (after_wall i j s)"
proof -
  from assms(2) have "in_bounds s i j" "\<not> (cat_i (cat s) = i \<and> cat_j (cat s) = j)"
    by (simp_all add: valid_target_def)
  with assms(1) have "wall_at (assign_isWall i j True s) (cat_i (cat s)) (cat_j (cat s))
      = wall_at s (cat_i (cat s)) (cat_j (cat s))"
    by (rule wall_at_after_wall)
  with assms(3) show ?thesis
    by (simp add: cat_not_on_wall_def after_wall_def)
qed

lemma cat_not_on_wall_after_step:
  assumes "step_as_specified m s" "cat_not_on_wall s"
  shows "cat_not_on_wall (snd (call_step m s))"
proof -
  obtain result c events where st: "step m s = (result, c, events)"
    by (cases "step m s") auto
  have walls: "wall_at (snd (call_step m s)) a b = wall_at s a b" for a b
    by (rule wall_at_cong) simp_all
  show ?thesis
  proof (cases result)
    case True
    with assms(1) st have "open_at s (cat_i c) (cat_j c)"
      by (simp add: step_as_specified_def)
    then have "\<not> wall_at s (cat_i c) (cat_j c)"
      by (rule open_at_not_wall_at)
    with st show ?thesis
      by (simp add: cat_not_on_wall_def walls)
  next
    case False
    with assms(1) st have "c = cat s"
      by (simp add: step_as_specified_def)
    with st assms(2) show ?thesis
      by (simp add: cat_not_on_wall_def walls)
  qed
qed

lemma cat_not_on_wall_cong:
  "w s' = w s \<Longrightarrow> h s' = h s \<Longrightarrow> blocks s' = blocks s \<Longrightarrow> cat s' = cat s \<Longrightarrow>
     cat_not_on_wall s' = cat_not_on_wall s"
  by (simp add: cat_not_on_wall_def wall_at_cong [of s' s])

lemma example_scene_playing: "state example_scene = PLAYING"
  by (simp add: example_scene_eq)

lemma example_scene_valid_target: "valid_target example_scene 0 0"
  by (simp add: example_scene_eq valid_target_def in_bounds_def)

lemma example_scene_cat_not_on_wall: "cat_not_on_wall example_scene"
  by (simp add: example_scene_eq cat_not_on_wall_def wall_at_def getBlock_def)

lemma lost_scene_reached:
  "playerClick (1, 1) left_cat 0 0 example_scene = Inr (True, lost_scene)"
  unfolding playerClick_accepted [OF wf_example_scene example_scene_playing example_scene_valid_target]
  by (simp add: left_cat_def before_step_def after_wall_def call_step_def assign_isWall_def
      setStatusText_def example_scene_eq lost_scene_def)

lemma wf_lost_scene: "wf_scene lost_scene"
  by (simp add: wf_scene_def lost_scene_def)

lemma open_at_after_reset:
  assumes "wf_scene s" "in_bounds s a b"
  shows "open_at (reset start s) a b"
proof -
  note ab = wf_scene_nth [OF assms]
  have "wf_scene (reset start s)"
    using assms(1) by (rule wf_scene_reset)
  moreover have "in_bounds (reset start s) a b"
    using assms(2) by (simp add: in_bounds_def)
  moreover have "\<not> isWall (blocks (reset start s) ! nat a ! nat b)"
    using ab by simp
  ultimately show ?thesis
    by (simp add: open_at_iff)
qed

section \<open>The outcome of a click\<close>

text \<open>
  Claim C2. While the state is \<open>PLAYING\<close>, after an accepted click for which the cat is
  not caught once the wall is placed, if \<open>step\<close> returns \<open>false\<close> then \<open>playerClick\<close> leaves
  the state \<open>WIN\<close>, not \<open>LOSE\<close>.
\<close>

theorem concession_is_win:
  assumes "wf_scene s" and "state s = PLAYING" and "valid_target s i j"
    and "\<not> isCaught m (after_wall i j s)"
    and "\<not> fst (step m (before_step i j s))"
  shows "\<exists>r s'. playerClick start m i j s = Inr (r, s') \<and> state s' = WIN \<and> state s' \<noteq> LOSE"
proof -
  let ?s' = "set_state WIN (setStatusText MsgConcede (snd (call_step m (before_step i j s))))"
  have "playerClick start m i j s = Inr (True, ?s')"
    using assms by (simp add: playerClick_accepted del: set_state.simps)
  moreover have "state ?s' = WIN \<and> state ?s' \<noteq> LOSE"
    by simp
  ultimately show ?thesis
    by blast
qed

theorem concession_is_win_witness:
  "wf_scene example_scene \<and> state example_scene = PLAYING \<and> valid_target example_scene 0 0
   \<and> \<not> isCaught conceding_cat (after_wall 0 0 example_scene)
   \<and> \<not> fst (step conceding_cat (before_step 0 0 example_scene))
   \<and> (\<exists>r s'. playerClick (1, 1) conceding_cat 0 0 example_scene = Inr (r, s')
         \<and> state s' = WIN \<and> state s' \<noteq> LOSE)"
proof -
  have caught: "\<not> isCaught conceding_cat (after_wall 0 0 example_scene)"
    and stepped: "\<not> fst (step conceding_cat (before_step 0 0 example_scene))"
    by (simp_all add: conceding_cat_def)
  from concession_is_win [OF wf_example_scene example_scene_playing example_scene_valid_target
      caught stepped, of "(1, 1)"]
  show ?thesis
    using wf_example_scene example_scene_playing example_scene_valid_target caught stepped
    by simp
qed

text \<open>
  Claim C3. While the state is \<open>PLAYING\<close>, after a click on a valid target (in bounds, not
  a wall, not the position of the cat) has made the block a wall, if \<open>isCaught\<close> holds then
  \<open>playerClick\<close> returns \<open>false\<close>, the state is \<open>WIN\<close>, and the cat is where it was: the
  cat does not step in that turn. The clicked block is a wall in the resulting scene.
\<close>

theorem caught_is_win_without_move:
  assumes "wf_scene s" and "state s = PLAYING" and "valid_target s i j"
    and "isCaught m (after_wall i j s)"
  shows "\<exists>s'. playerClick start m i j s = Inr (False, s')
           \<and> state s' = WIN \<and> cat s' = cat s
           \<and> blocks s' = blocks (after_wall i j s)
           \<and> wall_at s' i j"
proof -
  let ?s' = "set_state WIN (setStatusText MsgNoWayOut (after_wall i j s))"
  have click: "playerClick start m i j s = Inr (False, ?s')"
    using assms by (simp add: playerClick_accepted del: set_state.simps)
  have inb: "in_bounds s i j"
    using assms(3) by (simp add: valid_target_def)
  have "wf_scene (after_wall i j s)"
    unfolding after_wall_def using assms(1) by (rule wf_scene_assign_isWall)
  then have "wall_at (after_wall i j s) i j"
    using blocks_after_wall [OF assms(1) inb inb, of True] inb
    by (simp add: wall_at_iff after_wall_def)
  moreover have "wall_at ?s' i j = wall_at (after_wall i j s) i j"
    by (rule wall_at_cong) simp_all
  ultimately have "wall_at ?s' i j"
    by simp
  moreover have "state ?s' = WIN" "cat ?s' = cat s" "blocks ?s' = blocks (after_wall i j s)"
    by (simp_all add: after_wall_def)
  ultimately show ?thesis
    using click by simp
qed

theorem caught_is_win_without_move_witness:
  "wf_scene example_scene \<and> state example_scene = PLAYING \<and> valid_target example_scene 0 0
   \<and> isCaught caught_cat (after_wall 0 0 example_scene)
   \<and> (\<exists>s'. playerClick (1, 1) caught_cat 0 0 example_scene = Inr (False, s')
         \<and> state s' = WIN \<and> cat s' = cat example_scene
         \<and> blocks s' = blocks (after_wall 0 0 example_scene)
         \<and> wall_at s' 0 0)"
proof -
  have caught: "isCaught caught_cat (after_wall 0 0 example_scene)"
    by (simp add: caught_cat_def)
  from caught_is_win_without_move [OF wf_example_scene example_scene_playing
      example_scene_valid_target caught, of "(1, 1)"]
  show ?thesis
    using wf_example_scene example_scene_playing example_scene_valid_target caught
    by simp
qed

text \<open>
  Claim C4. While the state is \<open>PLAYING\<close>, a click whose target is out of bounds, is a
  wall already, or is the position of the cat makes \<open>playerClick\<close> return \<open>false\<close> and
  leaves the blocks, the cat and the state as they were (the state stays \<open>PLAYING\<close>); only
  the status bar shows another text.
\<close>

theorem invalid_click_changes_nothing:
  assumes "wf_scene s" and "state s = PLAYING"
    and "\<not> in_bounds s i j \<or> wall_at s i j \<or> (cat_i (cat s) = i \<and> cat_j (cat s) = j)"
  shows "\<exists>s'. playerClick start m i j s = Inr (False, s')
           \<and> blocks s' = blocks s \<and> cat s' = cat s \<and> state s' = PLAYING
           \<and> w s' = w s \<and> h s' = h s"
proof -
  from assms(1,3) have "\<not> valid_target s i j"
    by (auto simp add: valid_target_def wall_at_iff)
  from playerClick_rejected [OF assms(1,2) this, of start m] assms(2) show ?thesis
    by simp
qed

theorem invalid_click_changes_nothing_witness:
  "wf_scene example_scene \<and> state example_scene = PLAYING
   \<and> \<not> in_bounds example_scene 3 0
   \<and> cat_i (cat example_scene) = 1 \<and> cat_j (cat example_scene) = 1
   \<and> (\<exists>s'. playerClick (1, 1) left_cat 3 0 example_scene = Inr (False, s')
         \<and> blocks s' = blocks example_scene \<and> cat s' = cat example_scene \<and> state s' = PLAYING
         \<and> w s' = w example_scene \<and> h s' = h example_scene)
   \<and> (\<exists>s'. playerClick (1, 1) left_cat 1 1 example_scene = Inr (False, s')
         \<and> blocks s' = blocks example_scene \<and> cat s' = cat example_scene \<and> state s' = PLAYING
         \<and> w s' = w example_scene \<and> h s' = h example_scene)"
proof -
  have outside: "\<not> in_bounds example_scene 3 0"
    by (simp add: example_scene_eq in_bounds_def)
  have on_cat: "cat_i (cat example_scene) = 1 \<and> cat_j (cat example_scene) = 1"
    by (simp add: example_scene_eq)
  from invalid_click_changes_nothing [OF wf_example_scene example_scene_playing, of 3 0 "(1, 1)" left_cat]
    invalid_click_changes_nothing [OF wf_example_scene example_scene_playing, of 1 1 "(1, 1)" left_cat]
  show ?thesis
    using wf_example_scene example_scene_playing outside on_cat by simp
qed

text \<open>
  Claim C5. When the state is not \<open>PLAYING\<close> (it is \<open>WIN\<close> or \<open>LOSE\<close>), \<open>playerClick\<close>
  returns \<open>false\<close> and the scene it leaves is the one that \<open>reset\<close> produces. There the
  state is \<open>PLAYING\<close>, the grid has the size and the shape it had, with the same blocks
  except that none of them is a wall; so in a well-formed scene every cell within the
  bounds is still there and is open.
\<close>

theorem click_after_game_over_resets:
  assumes "state s \<noteq> PLAYING"
  shows "\<exists>s'. playerClick start m i j s = Inr (False, s')
           \<and> s' = reset start (setStatusText MsgGameOver s)
           \<and> state s' = PLAYING
           \<and> w s' = w s \<and> h s' = h s
           \<and> blocks s' = map (map (\<lambda>b. b\<lparr>isWall := False\<rparr>)) (blocks s)
           \<and> (wf_scene s \<longrightarrow> wf_scene s' \<and> (\<forall>a b. in_bounds s a b \<longrightarrow> open_at s' a b))
           \<and> (\<forall>column \<in> set (blocks s'). \<forall>b \<in> set column. \<not> isWall b)
           \<and> (\<forall>a b. \<not> wall_at s' a b)"
proof -
  let ?s0 = "setStatusText MsgGameOver s"
  let ?s' = "reset start ?s0"
  have click: "playerClick start m i j s = Inr (False, ?s')"
    using assms by (rule playerClick_game_over)
  have shape: "wf_scene ?s' \<and> (\<forall>a b. in_bounds s a b \<longrightarrow> open_at ?s' a b)" if "wf_scene s"
  proof -
    from that have wf0: "wf_scene ?s0"
      by (simp add: wf_scene_def)
    have "open_at ?s' a b" if "in_bounds s a b" for a b
    proof -
      from that have "in_bounds ?s0 a b"
        by (simp add: in_bounds_def)
      with wf0 show ?thesis
        by (rule open_at_after_reset)
    qed
    moreover have "wf_scene ?s'"
      using wf0 by (rule wf_scene_reset)
    ultimately show ?thesis
      by blast
  qed
  have walls: "(\<forall>column \<in> set (blocks ?s'). \<forall>b \<in> set column. \<not> isWall b)
      \<and> (\<forall>a b. \<not> wall_at ?s' a b)"
    by (auto simp add: no_wall_after_reset)
  have fields: "state ?s' = PLAYING" "w ?s' = w s" "h ?s' = h s"
    "blocks ?s' = map (map (\<lambda>b. b\<lparr>isWall := False\<rparr>)) (blocks s)"
    by simp_all
  from click shape walls fields show ?thesis
    by blast
qed

theorem click_after_game_over_resets_witness:
  "wf_scene lost_scene \<and> state lost_scene = LOSE \<and> state lost_scene \<noteq> PLAYING
   \<and> wall_at lost_scene 0 0 \<and> cat lost_scene = \<lparr>cat_i = 0, cat_j = 1\<rparr>
   \<and> playerClick (1, 1) left_cat 2 2 lost_scene = Inr (False, example_scene)
   \<and> state example_scene = PLAYING \<and> wf_scene example_scene
   \<and> open_at example_scene 0 0 \<and> cat example_scene = \<lparr>cat_i = 1, cat_j = 1\<rparr>
   \<and> (\<exists>s'. playerClick (1, 1) left_cat 2 2 lost_scene = Inr (False, s')
         \<and> s' = reset (1, 1) (setStatusText MsgGameOver lost_scene)
         \<and> state s' = PLAYING
         \<and> w s' = w lost_scene \<and> h s' = h lost_scene
         \<and> blocks s' = map (map (\<lambda>b. b\<lparr>isWall := False\<rparr>)) (blocks lost_scene)
         \<and> wf_scene s' \<and> open_at s' 0 0
         \<and> \<not> wall_at s' 0 0)"
proof -
  have over: "state lost_scene \<noteq> PLAYING"
    by (simp add: lost_scene_def)
  have inb: "in_bounds lost_scene 0 0"
    by (simp add: lost_scene_def in_bounds_def)
  have before: "state lost_scene = LOSE" "wall_at lost_scene 0 0"
    "cat lost_scene = \<lparr>cat_i = 0, cat_j = 1\<rparr>"
    by (simp_all add: lost_scene_def wall_at_def getBlock_def)
  have result: "reset (1, 1) (setStatusText MsgGameOver lost_scene) = example_scene"
    by (simp add: reset_def Cat_reset_def setStatusText_def lost_scene_def example_scene_eq)
  have after: "state example_scene = PLAYING" "open_at example_scene 0 0"
    "cat example_scene = \<lparr>cat_i = 1, cat_j = 1\<rparr>"
    by (simp_all add: example_scene_eq open_at_def getBlock_def)
  from click_after_game_over_resets [OF over, of "(1, 1)" left_cat 2 2]
  show ?thesis
    using wf_lost_scene wf_example_scene over inb before after result
    by (auto simp add: result)
qed

text \<open>
  Claim C10. After an accepted click, when the cat is not caught and \<open>step\<close> returns
  \<open>false\<close>, the state becomes \<open>WIN\<close> and \<open>playerClick\<close> returns \<open>true\<close>; when the cat is
  caught, the state becomes \<open>WIN\<close> and \<open>playerClick\<close> returns \<open>false\<close>. So a win is
  reported with either return value.
\<close>

theorem win_with_either_return_value:
  assumes "wf_scene s" and "state s = PLAYING" and "valid_target s i j"
  shows "(\<not> isCaught m (after_wall i j s) \<and> \<not> fst (step m (before_step i j s)) \<longrightarrow>
            (\<exists>s'. playerClick start m i j s = Inr (True, s') \<and> state s' = WIN))
         \<and> (isCaught m (after_wall i j s) \<longrightarrow>
            (\<exists>s'. playerClick start m i j s = Inr (False, s') \<and> state s' = WIN))"
  using assms by (simp add: playerClick_accepted del: set_state.simps)

theorem win_with_either_return_value_witness:
  "wf_scene example_scene \<and> state example_scene = PLAYING \<and> valid_target example_scene 0 0
   \<and> \<not> isCaught conceding_cat (after_wall 0 0 example_scene)
   \<and> \<not> fst (step conceding_cat (before_step 0 0 example_scene))
   \<and> isCaught caught_cat (after_wall 0 0 example_scene)
   \<and> (\<exists>s'. playerClick (1, 1) conceding_cat 0 0 example_scene = Inr (True, s') \<and> state s' = WIN)
   \<and> (\<exists>s'. playerClick (1, 1) caught_cat 0 0 example_scene = Inr (False, s') \<and> state s' = WIN)"
proof -
  have facts: "\<not> isCaught conceding_cat (after_wall 0 0 example_scene)"
    "\<not> fst (step conceding_cat (before_step 0 0 example_scene))"
    "isCaught caught_cat (after_wall 0 0 example_scene)"
    by (simp_all add: conceding_cat_def caught_cat_def)
  from win_with_either_return_value [OF wf_example_scene example_scene_playing
      example_scene_valid_target, of conceding_cat "(1, 1)"]
    win_with_either_return_value [OF wf_example_scene example_scene_playing
      example_scene_valid_target, of caught_cat "(1, 1)"]
  show ?thesis
    using wf_example_scene example_scene_playing example_scene_valid_target facts by simp
qed

section \<open>The invariant and \<open>reset\<close>\<close>

text \<open>
  Claim C6. The cell under the cat is never a wall, and \<open>reset\<close> and \<open>playerClick\<close> keep it
  so: from a well-formed scene where the cat is not on a wall, \<open>reset\<close> leads to such a
  scene, and so does \<open>playerClick\<close>, which returns a result, provided that the step of the
  cat behaves as specified in the scene in which it is called. In particular the wall that
  \<open>playerClick\<close> places on a valid target is not placed under the cat.
\<close>

theorem cat_never_on_wall:
  assumes "wf_scene s" and "cat_not_on_wall s"
    and "step_as_specified m (before_step i j s)"
  shows "wf_scene (reset start s) \<and> cat_not_on_wall (reset start s)
    \<and> (\<exists>r s'. playerClick start m i j s = Inr (r, s') \<and> wf_scene s' \<and> cat_not_on_wall s')
    \<and> (state s = PLAYING \<and> valid_target s i j \<longrightarrow> cat_not_on_wall (after_wall i j s))"
proof (intro conjI impI)
  show "wf_scene (reset start s)"
    using assms(1) by (rule wf_scene_reset)
  show "cat_not_on_wall (reset start s)"
    by (simp add: cat_not_on_wall_def no_wall_after_reset)
  show "cat_not_on_wall (after_wall i j s)" if "state s = PLAYING \<and> valid_target s i j"
    using assms(1) that assms(2) by (simp add: cat_not_on_wall_after_wall)
  have inv_cong: "wf_scene s' \<and> cat_not_on_wall s'"
    if "wf_scene s0" "cat_not_on_wall s0" "w s' = w s0" "h s' = h s0" "blocks s' = blocks s0"
      "cat s' = cat s0" for s' s0
    using that wf_scene_eq [of s' s0] cat_not_on_wall_cong [of s' s0] by simp
  show "\<exists>r s'. playerClick start m i j s = Inr (r, s') \<and> wf_scene s' \<and> cat_not_on_wall s'"
  proof (cases "state s = PLAYING")
    case False
    then have "playerClick start m i j s = Inr (False, reset start (setStatusText MsgGameOver s))"
      by (rule playerClick_game_over)
    moreover have "wf_scene (reset start (setStatusText MsgGameOver s))"
      using assms(1) by (simp add: wf_scene_def list_all_iff)
    moreover have "cat_not_on_wall (reset start (setStatusText MsgGameOver s))"
      by (simp add: cat_not_on_wall_def no_wall_after_reset)
    ultimately show ?thesis
      by blast
  next
    case playing: True
    show ?thesis
    proof (cases "valid_target s i j")
      case False
      let ?msg = "if \<not> in_bounds s i j then MsgNoSuchPosition
        else if isWall (blocks s ! nat i ! nat j) then MsgAlreadyWall else MsgCatPosition"
      have "playerClick start m i j s = Inr (False, setStatusText ?msg s)"
        using assms(1) playing False by (rule playerClick_rejected)
      moreover have "wf_scene (setStatusText ?msg s) \<and> cat_not_on_wall (setStatusText ?msg s)"
        using assms(1,2) by (rule inv_cong) simp_all
      ultimately show ?thesis
        by blast
    next
      case valid: True
      have wf1: "wf_scene (after_wall i j s)"
        unfolding after_wall_def using assms(1) by (rule wf_scene_assign_isWall)
      have free1: "cat_not_on_wall (after_wall i j s)"
        using assms(1) valid assms(2) by (rule cat_not_on_wall_after_wall)
      have wf2: "wf_scene (before_step i j s)"
        using wf1 by (simp add: wf_scene_def before_step_def after_wall_def)
      have free2: "cat_not_on_wall (before_step i j s)"
        using inv_cong [OF wf1 free1, of "before_step i j s"]
        by (simp add: before_step_def after_wall_def)
      let ?s3 = "snd (call_step m (before_step i j s))"
      have wf3: "wf_scene ?s3"
        using wf2 by (simp add: wf_scene_def)
      have free3: "cat_not_on_wall ?s3"
        using assms(3) free2 by (rule cat_not_on_wall_after_step)
      note click = playerClick_accepted [OF assms(1) playing valid, of start m]
      consider (caught) "isCaught m (after_wall i j s)"
        | (concede) "\<not> isCaught m (after_wall i j s)" "\<not> fst (step m (before_step i j s))"
        | (moved) "\<not> isCaught m (after_wall i j s)" "fst (step m (before_step i j s))"
        by blast
      then show ?thesis
      proof cases
        case caught
        let ?s' = "set_state WIN (setStatusText MsgNoWayOut (after_wall i j s))"
        have "playerClick start m i j s = Inr (False, ?s')"
          using click caught by (simp del: set_state.simps)
        moreover have "wf_scene ?s' \<and> cat_not_on_wall ?s'"
          using wf1 free1 by (rule inv_cong) simp_all
        ultimately show ?thesis
          by blast
      next
        case concede
        let ?s' = "set_state WIN (setStatusText MsgConcede ?s3)"
        have "playerClick start m i j s = Inr (True, ?s')"
          using click concede by (simp del: set_state.simps)
        moreover have "wf_scene ?s' \<and> cat_not_on_wall ?s'"
          using wf3 free3 by (rule inv_cong) simp_all
        ultimately show ?thesis
          by blast
      next
        case moved
        have "playerClick start m i j s = Inr (True, ?s3)"
          using click moved by (simp del: set_state.simps)
        with wf3 free3 show ?thesis
          by blast
      qed
    qed
  qed
qed

theorem cat_never_on_wall_witness:
  "wf_scene example_scene \<and> cat_not_on_wall example_scene
   \<and> step_as_specified left_cat (before_step 0 0 example_scene)
   \<and> wf_scene (reset (1, 1) example_scene) \<and> cat_not_on_wall (reset (1, 1) example_scene)
   \<and> (\<exists>r s'. playerClick (1, 1) left_cat 0 0 example_scene = Inr (r, s')
         \<and> wf_scene s' \<and> cat_not_on_wall s')
   \<and> state example_scene = PLAYING \<and> valid_target example_scene 0 0
   \<and> cat_not_on_wall (after_wall 0 0 example_scene)"
proof -
  have stepping: "step_as_specified left_cat (before_step 0 0 example_scene)"
    by (simp add: step_as_specified_def left_cat_def before_step_def assign_isWall_def
        example_scene_eq getNeighbours_odd open_at_def getBlock_def)
  from cat_never_on_wall [OF wf_example_scene example_scene_cat_not_on_wall stepping, of "(1, 1)"]
  show ?thesis
    using wf_example_scene example_scene_cat_not_on_wall stepping
      example_scene_playing example_scene_valid_target
    by simp
qed

text \<open>
  Claim C9. \<open>reset\<close> is idempotent: calling it twice in a row yields the same scene
  (blocks, cat, state and status text) as calling it once.
\<close>

theorem reset_idempotent: "reset start (reset start s) = reset start s"
  by (simp add: reset_def Let_def Cat_reset_def setStatusText_def comp_def)

theorem reset_idempotent_witness:
  "reset (1, 1) (reset (1, 1) (after_wall 0 0 example_scene)) = reset (1, 1) (after_wall 0 0 example_scene)"
  by (rule reset_idempotent)

end
